theory Spec2Isabelle
  imports Main "HOL-Library.AList"
begin

section \<open>Strings\<close>

text \<open>
  Python strings are modelled as HOL strings (character lists). The three string
  operations the note components use are \<^verbatim>\<open>s * n\<close>, \<^verbatim>\<open>s.split(sep)\<close> with a
  one-character separator, and \<^verbatim>\<open>sep.join(items)\<close>.
\<close>

definition NL :: char where
  "NL = CHR 0x0A"

text \<open>\<^verbatim>\<open>s * n\<close>: \<open>n\<close> copies of \<open>s\<close>, the empty string when \<open>n\<close> is not positive.\<close>

definition str_mul :: "string \<Rightarrow> int \<Rightarrow> string" where
  "str_mul s n = concat (replicate (nat n) s)"

text \<open>\<^verbatim>\<open>s.split(sep)\<close>: the pieces between the separators; never empty, \<^verbatim>\<open>"".split(sep) == [""]\<close>.\<close>

fun str_split :: "char \<Rightarrow> string \<Rightarrow> string list" where
  "str_split sep [] = [[]]"
| "str_split sep (c # cs) =
     (if c = sep then [] # str_split sep cs
      else (let ps = str_split sep cs in (c # hd ps) # tl ps))"

text \<open>\<^verbatim>\<open>sep.join(items)\<close>.\<close>

fun str_join :: "string \<Rightarrow> string list \<Rightarrow> string" where
  "str_join sep [] = []"
| "str_join sep [x] = x"
| "str_join sep (x # y # ys) = x @ sep @ str_join sep (y # ys)"

section \<open>Note components in a store\<close>

text \<open>
  Components are Python objects: a container holds references to its children, and
  \<^verbatim>\<open>list.remove\<close> compares them by identity (no class defines \<^verbatim>\<open>__eq__\<close>). The store
  maps an address to the object living there; an address is the object's identity.
  Objects are never freed, so the store is a list and a new object gets the next index.
\<close>

type_synonym addr = nat

datatype obj =
    Heading string
  | Subheading string int
  | Text string
  | CodeBlock string string
  | Diagram string string
  | Section string "addr list"
  | Note string "addr list" "(string \<times> string) list"

type_synonym heap = "obj list"

datatype error = ValueError | AttributeError | RecursionError

type_synonym 'a result = "error + 'a"

definition deref :: "heap \<Rightarrow> addr \<Rightarrow> obj option" where
  "deref h a = (if a < length h then Some (h ! a) else None)"

definition alloc :: "obj \<Rightarrow> heap \<Rightarrow> addr \<times> heap" where
  "alloc ob h = (length h, h @ [ob])"

subsection \<open>Constructors\<close>

text \<open>
  A constructor allocates the object with the fields \<^verbatim>\<open>__init__\<close> assigns. Arguments
  that have a default in the source (level 2, the empty language, diagram type
  \<^verbatim>\<open>ascii\<close>, the empty section title) are passed explicitly.
\<close>

definition Heading_init :: "string \<Rightarrow> heap \<Rightarrow> addr \<times> heap" where
  "Heading_init text h = alloc (Heading text) h"

definition Subheading_init :: "string \<Rightarrow> int \<Rightarrow> heap \<Rightarrow> addr \<times> heap" where
  "Subheading_init text level h = alloc (Subheading text (max 2 (min 6 level))) h"

definition Text_init :: "string \<Rightarrow> heap \<Rightarrow> addr \<times> heap" where
  "Text_init content h = alloc (Text content) h"

definition CodeBlock_init :: "string \<Rightarrow> string \<Rightarrow> heap \<Rightarrow> addr \<times> heap" where
  "CodeBlock_init code language h = alloc (CodeBlock code language) h"

definition Diagram_init :: "string \<Rightarrow> string \<Rightarrow> heap \<Rightarrow> addr \<times> heap" where
  "Diagram_init content diagram_type h = alloc (Diagram content diagram_type) h"

definition Section_init :: "string \<Rightarrow> heap \<Rightarrow> addr \<times> heap" where
  "Section_init title h = alloc (Section title []) h"

definition Note_init :: "string \<Rightarrow> heap \<Rightarrow> addr \<times> heap" where
  "Note_init title h = alloc (Note title [] []) h"

subsection \<open>Rendering the leaves\<close>

definition Heading_render :: "string \<Rightarrow> int \<Rightarrow> string" where
  "Heading_render text indent =
     (let prefix = str_mul ''  '' indent in prefix @ ''# '' @ text @ [NL])"

definition Subheading_render :: "string \<Rightarrow> int \<Rightarrow> int \<Rightarrow> string" where
  "Subheading_render text level indent =
     (let prefix = str_mul ''  '' indent;
          hashes = str_mul ''#'' level
      in prefix @ hashes @ '' '' @ text @ [NL])"

definition Text_render :: "string \<Rightarrow> int \<Rightarrow> string" where
  "Text_render content indent =
     (let prefix = str_mul ''  '' indent;
          lines = str_split NL content
      in str_join [NL] (map (\<lambda>line. prefix @ line) lines) @ [NL])"

definition CodeBlock_render :: "string \<Rightarrow> string \<Rightarrow> int \<Rightarrow> string" where
  "CodeBlock_render code language indent =
     (let prefix = str_mul ''  '' indent;
          lines = [prefix @ ''```'' @ language];
          code_lines = str_split NL code;
          lines = lines @ map (\<lambda>line. prefix @ line) code_lines;
          lines = lines @ [prefix @ ''```'']
      in str_join [NL] lines @ [NL])"

definition Diagram_render :: "string \<Rightarrow> string \<Rightarrow> int \<Rightarrow> string" where
  "Diagram_render content diagram_type indent =
     (let prefix = str_mul ''  '' indent;
          lines = [prefix @ ''[Diagram: '' @ diagram_type @ '']''];
          diagram_lines = str_split NL content;
          lines = lines @ map (\<lambda>line. prefix @ line) diagram_lines;
          lines = lines @ [prefix @ ''[End Diagram]'']
      in str_join [NL] lines @ [NL])"

subsection \<open>Rendering the composites\<close>

text \<open>
  A method call takes the store and returns it with its result, as any Python call may
  write to the objects it reaches. The loops over \<^verbatim>\<open>self.components\<close> append to the
  local list \<^verbatim>\<open>result\<close>; an exception in a child ends the loop. The recursion of
  \<^verbatim>\<open>render\<close> through the store is bounded by the first argument, the depth of nested
  calls the interpreter allows: beyond it the call raises \<^verbatim>\<open>RecursionError\<close>.
\<close>

fun Section_render_loop ::
  "(addr \<Rightarrow> heap \<Rightarrow> string result \<times> heap) \<Rightarrow> addr list \<Rightarrow> string list \<Rightarrow> heap
     \<Rightarrow> string list result \<times> heap" where
  "Section_render_loop r [] result h = (Inr result, h)"
| "Section_render_loop r (component # components) result h =
     (case r component h of
        (Inl e, h') \<Rightarrow> (Inl e, h')
      | (Inr s, h') \<Rightarrow> Section_render_loop r components (result @ [s]) h')"

fun Note_metadata_loop :: "(string \<times> string) list \<Rightarrow> string list \<Rightarrow> string list" where
  "Note_metadata_loop [] result = result"
| "Note_metadata_loop ((key, val) # items) result =
     Note_metadata_loop items (result @ [key @ '': '' @ val @ [NL]])"

fun Note_render_loop ::
  "(addr \<Rightarrow> heap \<Rightarrow> string result \<times> heap) \<Rightarrow> addr list \<Rightarrow> string list \<Rightarrow> heap
     \<Rightarrow> string list result \<times> heap" where
  "Note_render_loop r [] result h = (Inr result, h)"
| "Note_render_loop r (component # components) result h =
     (case r component h of
        (Inl e, h') \<Rightarrow> (Inl e, h')
      | (Inr s, h') \<Rightarrow> Note_render_loop r components (result @ [s] @ [[NL]]) h')"

fun render :: "nat \<Rightarrow> addr \<Rightarrow> int \<Rightarrow> heap \<Rightarrow> string result \<times> heap" where
  "render 0 self indent h = (Inl RecursionError, h)"
| "render (Suc n) self indent h =
     (case deref h self of
        None \<Rightarrow> (Inl AttributeError, h)
      | Some (Heading text) \<Rightarrow> (Inr (Heading_render text indent), h)
      | Some (Subheading text level) \<Rightarrow> (Inr (Subheading_render text level indent), h)
      | Some (Text content) \<Rightarrow> (Inr (Text_render content indent), h)
      | Some (CodeBlock code language) \<Rightarrow> (Inr (CodeBlock_render code language indent), h)
      | Some (Diagram content diagram_type) \<Rightarrow>
          (Inr (Diagram_render content diagram_type indent), h)
      | Some (Section title components) \<Rightarrow>
          (let result =
                 (if title \<noteq> [] then [str_mul ''  '' indent @ ''## '' @ title @ [NL]]
                  else [])
           in case Section_render_loop (\<lambda>c h'. render n c indent h') components result h of
                (Inl e, h') \<Rightarrow> (Inl e, h')
              | (Inr result', h') \<Rightarrow> (Inr (concat result'), h'))
      | Some (Note title components metadata) \<Rightarrow>
          (let result = [''# '' @ title @ [NL, NL]];
               result =
                 (if metadata \<noteq> []
                  then Note_metadata_loop metadata (result @ [''---'' @ [NL]])
                         @ [''---'' @ [NL, NL]]
                  else result)
           in case Note_render_loop (\<lambda>c h'. render n c indent h') components result h of
                (Inl e, h') \<Rightarrow> (Inl e, h')
              | (Inr result', h') \<Rightarrow> (Inr (concat result'), h')))"

subsection \<open>Plain text content\<close>

fun get_text_content_loop ::
  "(addr \<Rightarrow> heap \<Rightarrow> string result \<times> heap) \<Rightarrow> addr list \<Rightarrow> string list \<Rightarrow> heap
     \<Rightarrow> string list result \<times> heap" where
  "get_text_content_loop g [] parts h = (Inr parts, h)"
| "get_text_content_loop g (component # components) parts h =
     (case g component h of
        (Inl e, h') \<Rightarrow> (Inl e, h')
      | (Inr s, h') \<Rightarrow> get_text_content_loop g components (parts @ [s]) h')"

fun get_text_content :: "nat \<Rightarrow> addr \<Rightarrow> heap \<Rightarrow> string result \<times> heap" where
  "get_text_content 0 self h = (Inl RecursionError, h)"
| "get_text_content (Suc n) self h =
     (case deref h self of
        None \<Rightarrow> (Inl AttributeError, h)
      | Some (Heading text) \<Rightarrow> (Inr text, h)
      | Some (Subheading text level) \<Rightarrow> (Inr text, h)
      | Some (Text content) \<Rightarrow> (Inr content, h)
      | Some (CodeBlock code language) \<Rightarrow> (Inr code, h)
      | Some (Diagram content diagram_type) \<Rightarrow> (Inr content, h)
      | Some (Section title components) \<Rightarrow>
          (let parts = (if title \<noteq> [] then [title] else [])
           in case get_text_content_loop (\<lambda>c h'. get_text_content n c h') components parts h of
                (Inl e, h') \<Rightarrow> (Inl e, h')
              | (Inr parts', h') \<Rightarrow> (Inr (str_join '' '' parts'), h'))
      | Some (Note title components metadata) \<Rightarrow>
          (let parts = [title]
           in case get_text_content_loop (\<lambda>c h'. get_text_content n c h') components parts h of
                (Inl e, h') \<Rightarrow> (Inl e, h')
              | (Inr parts', h') \<Rightarrow> (Inr (str_join '' '' parts'), h')))"

subsection \<open>Mutation of the composites\<close>

text \<open>
  \<^verbatim>\<open>list.remove(x)\<close> deletes the first item equal to \<open>x\<close> and raises \<^verbatim>\<open>ValueError\<close>
  when there is none. Components compare by identity, that is by address.
\<close>

fun list_remove :: "addr list \<Rightarrow> addr \<Rightarrow> addr list result" where
  "list_remove [] x = Inl ValueError"
| "list_remove (y # ys) x =
     (if y = x then Inr ys
      else (case list_remove ys x of Inl e \<Rightarrow> Inl e | Inr zs \<Rightarrow> Inr (y # zs)))"

text \<open>
  The methods return \<^verbatim>\<open>self\<close> for chaining. A call on an object of another class has
  no such method.
\<close>

definition Section_add :: "addr \<Rightarrow> addr \<Rightarrow> heap \<Rightarrow> addr result \<times> heap" where
  "Section_add self component h =
     (case deref h self of
        Some (Section title components) \<Rightarrow>
          (Inr self, h[self := Section title (components @ [component])])
      | _ \<Rightarrow> (Inl AttributeError, h))"

definition Section_remove :: "addr \<Rightarrow> addr \<Rightarrow> heap \<Rightarrow> addr result \<times> heap" where
  "Section_remove self component h =
     (case deref h self of
        Some (Section title components) \<Rightarrow>
          (case list_remove components component of
             Inl e \<Rightarrow> (Inl e, h)
           | Inr components' \<Rightarrow> (Inr self, h[self := Section title components']))
      | _ \<Rightarrow> (Inl AttributeError, h))"

definition Note_add :: "addr \<Rightarrow> addr \<Rightarrow> heap \<Rightarrow> addr result \<times> heap" where
  "Note_add self component h =
     (case deref h self of
        Some (Note title components metadata) \<Rightarrow>
          (Inr self, h[self := Note title (components @ [component]) metadata])
      | _ \<Rightarrow> (Inl AttributeError, h))"

definition Note_remove :: "addr \<Rightarrow> addr \<Rightarrow> heap \<Rightarrow> addr result \<times> heap" where
  "Note_remove self component h =
     (case deref h self of
        Some (Note title components metadata) \<Rightarrow>
          (case list_remove components component of
             Inl e \<Rightarrow> (Inl e, h)
           | Inr components' \<Rightarrow> (Inr self, h[self := Note title components' metadata]))
      | _ \<Rightarrow> (Inl AttributeError, h))"

text \<open>
  \<^verbatim>\<open>self.metadata[key] = value\<close> on an insertion-ordered dictionary, held as an
  association list: an existing key keeps its place, a new key goes last.
\<close>

definition Note_set_metadata :: "addr \<Rightarrow> string \<Rightarrow> string \<Rightarrow> heap \<Rightarrow> addr result \<times> heap" where
  "Note_set_metadata self key val h =
     (case deref h self of
        Some (Note title components metadata) \<Rightarrow>
          (Inr self, h[self := Note title components (AList.update key val metadata)])
      | _ \<Rightarrow> (Inl AttributeError, h))"

subsection \<open>Notions of the specification\<close>

text \<open>
  The specification describes the stored level of a Subheading as \<open>clamp(input, 2, 6)\<close>:
  inputs below the lower bound become the lower bound, inputs above the upper bound
  become the upper bound. This definition follows those words; the constructor
  \<open>Subheading_init\<close> above follows the source, \<^verbatim>\<open>max(2, min(6, level))\<close>.
\<close>

definition clamp :: "int \<Rightarrow> int \<Rightarrow> int \<Rightarrow> int" where
  "clamp x lo hi = (if x < lo then lo else if hi < x then hi else x)"

text \<open>
  The lines of an output: the pieces between its newlines, without the empty piece that
  follows a final newline. The empty output has no line.
\<close>

definition str_lines :: "string \<Rightarrow> string list" where
  "str_lines s = (let ps = str_split NL s in if last ps = [] then butlast ps else ps)"

text \<open>
  The specification's indentation property of an output at a depth: each of its lines
  begins with two spaces per level of depth.
\<close>

definition indented :: "int \<Rightarrow> string \<Rightarrow> bool" where
  "indented depth s =
     list_all (\<lambda>line. take (2 * nat depth) line = replicate (2 * nat depth) CHR '' '')
       (str_lines s)"

text \<open>
  An output that is empty or ends with a newline: the lines of what follows it start
  afresh.
\<close>

definition terminated :: "string \<Rightarrow> bool" where
  "terminated s = (s = [] \<or> last s = NL)"

text \<open>
  The trees whose rendering is indented line by line: leaves and Sections only, reached
  within the call budget, where no heading text, language tag, diagram type or section
  title holds a newline. The content of a Text, CodeBlock or Diagram may hold newlines:
  \<^verbatim>\<open>render\<close> splits it into lines itself.
\<close>

fun plain_tree :: "nat \<Rightarrow> addr \<Rightarrow> heap \<Rightarrow> bool" where
  "plain_tree 0 a h = False"
| "plain_tree (Suc n) a h =
     (case deref h a of
        None \<Rightarrow> False
      | Some (Heading text) \<Rightarrow> NL \<notin> set text
      | Some (Subheading text level) \<Rightarrow> NL \<notin> set text
      | Some (Text content) \<Rightarrow> True
      | Some (CodeBlock code language) \<Rightarrow> NL \<notin> set language
      | Some (Diagram content diagram_type) \<Rightarrow> NL \<notin> set diagram_type
      | Some (Section title components) \<Rightarrow>
          NL \<notin> set title \<and> list_all (\<lambda>c. plain_tree n c h) components
      | Some (Note title components metadata) \<Rightarrow> False)"


section \<open>Removing a component\<close>

lemma list_remove_absent: "x \<notin> set ys \<Longrightarrow> list_remove ys x = Inl ValueError"
  by (induction ys) auto

lemma list_remove_first:
  "x \<notin> set xs \<Longrightarrow> list_remove (xs @ x # ys) x = Inr (xs @ ys)"
  by (induction xs) auto

text \<open>
  C2. Removing a node that is not among the children of a Section or of a Note raises
  the lookup failure \<^verbatim>\<open>ValueError\<close>; the call does not return normally.
\<close>

theorem remove_absent_raises:
  "(deref h self = Some (Section title components) \<and> component \<notin> set components
      \<longrightarrow> fst (Section_remove self component h) = Inl ValueError) \<and>
   (deref h self = Some (Note title components metadata) \<and> component \<notin> set components
      \<longrightarrow> fst (Note_remove self component h) = Inl ValueError)"
  by (simp add: Section_remove_def Note_remove_def list_remove_absent)

theorem remove_absent_raises_witness:
  "deref [Section ''S'' [1], Text ''a'', Text ''b''] 0 = Some (Section ''S'' [1]) \<and>
   2 \<notin> set [1::nat] \<and>
   fst (Section_remove 0 2 [Section ''S'' [1], Text ''a'', Text ''b'']) = Inl ValueError \<and>
   deref [Note ''N'' [1] [(''k'', ''v'')], Text ''a'', Text ''b''] 0
     = Some (Note ''N'' [1] [(''k'', ''v'')]) \<and>
   fst (Note_remove 0 2 [Note ''N'' [1] [(''k'', ''v'')], Text ''a'', Text ''b''])
     = Inl ValueError"
  using remove_absent_raises [where h = "[Section ''S'' [1], Text ''a'', Text ''b'']"
      and self = 0 and title = "''S''" and components = "[1]" and component = 2]
    remove_absent_raises [where h = "[Note ''N'' [1] [(''k'', ''v'')], Text ''a'', Text ''b'']"
      and self = 0 and title = "''N''" and components = "[1]" and component = 2
      and metadata = "[(''k'', ''v'')]"]
  by (simp add: deref_def)

text \<open>
  C10. A failed removal leaves the whole store, and so the container's list of children,
  as it was. When the node is among the children, the call deletes its first occurrence
  only: the children before it and all children after it, later duplicates included,
  stay in place, and no other object changes.
\<close>

theorem remove_atomic_first_occurrence:
  "(deref h self = Some (Section title components) \<and> component \<notin> set components
      \<longrightarrow> snd (Section_remove self component h) = h) \<and>
   (deref h self = Some (Note title components metadata) \<and> component \<notin> set components
      \<longrightarrow> snd (Note_remove self component h) = h) \<and>
   (deref h self = Some (Section title (xs @ component # ys)) \<and> component \<notin> set xs
      \<longrightarrow> Section_remove self component h = (Inr self, h[self := Section title (xs @ ys)])) \<and>
   (deref h self = Some (Note title (xs @ component # ys) metadata) \<and> component \<notin> set xs
      \<longrightarrow> Note_remove self component h
            = (Inr self, h[self := Note title (xs @ ys) metadata]))"
  by (simp add: Section_remove_def Note_remove_def list_remove_absent list_remove_first)

theorem remove_atomic_first_occurrence_witness:
  "deref [Section ''S'' [1, 2, 1], Text ''a'', Text ''b''] 0 = Some (Section ''S'' [1, 2, 1]) \<and>
   3 \<notin> set [1, 2, 1::nat] \<and>
   snd (Section_remove 0 3 [Section ''S'' [1, 2, 1], Text ''a'', Text ''b''])
     = [Section ''S'' [1, 2, 1], Text ''a'', Text ''b''] \<and>
   snd (Note_remove 0 3 [Note ''N'' [1, 2, 1] [], Text ''a'', Text ''b''])
     = [Note ''N'' [1, 2, 1] [], Text ''a'', Text ''b''] \<and>
   1 \<notin> set [2::nat] \<and>
   Section_remove 0 1 [Section ''S'' [2, 1, 2, 1], Text ''a'', Text ''b'']
     = (Inr 0, [Section ''S'' [2, 2, 1], Text ''a'', Text ''b'']) \<and>
   Note_remove 0 1 [Note ''N'' [2, 1, 2, 1] [], Text ''a'', Text ''b'']
     = (Inr 0, [Note ''N'' [2, 2, 1] [], Text ''a'', Text ''b''])"
  using remove_atomic_first_occurrence [where h = "[Section ''S'' [1, 2, 1], Text ''a'', Text ''b'']"
      and self = 0 and title = "''S''" and components = "[1, 2, 1]" and component = 3
      and xs = "[]" and ys = "[2, 1]"]
    remove_atomic_first_occurrence [where h = "[Note ''N'' [1, 2, 1] [], Text ''a'', Text ''b'']"
      and self = 0 and title = "''N''" and components = "[1, 2, 1]" and component = 3
      and metadata = "[]" and xs = "[]" and ys = "[2, 1]"]
    remove_atomic_first_occurrence [where h = "[Section ''S'' [2, 1, 2, 1], Text ''a'', Text ''b'']"
      and self = 0 and title = "''S''" and components = "[]" and component = 1
      and xs = "[2]" and ys = "[2, 1]"]
    remove_atomic_first_occurrence [where h = "[Note ''N'' [2, 1, 2, 1] [], Text ''a'', Text ''b'']"
      and self = 0 and title = "''N''" and components = "[]" and component = 1
      and metadata = "[]" and xs = "[2]" and ys = "[2, 1]"]
  by (simp add: deref_def)

section \<open>Rendering and text extraction leave the store alone\<close>

lemma Section_render_loop_heap:
  "(\<And>c h. snd (r c h) = h) \<Longrightarrow> snd (Section_render_loop r cs res h) = h"
proof (induction cs arbitrary: res)
  case Nil
  show ?case by simp
next
  case (Cons c cs)
  have "snd (r c h) = h" by (rule Cons.prems)
  then show ?case
    using Cons.IH [OF Cons.prems] by (simp add: case_prod_beta split: sum.splits)
qed

lemma Note_render_loop_heap:
  "(\<And>c h. snd (r c h) = h) \<Longrightarrow> snd (Note_render_loop r cs res h) = h"
proof (induction cs arbitrary: res)
  case Nil
  show ?case by simp
next
  case (Cons c cs)
  have "snd (r c h) = h" by (rule Cons.prems)
  then show ?case
    using Cons.IH [OF Cons.prems] by (simp add: case_prod_beta split: sum.splits)
qed

lemma get_text_content_loop_heap:
  "(\<And>c h. snd (g c h) = h) \<Longrightarrow> snd (get_text_content_loop g cs parts h) = h"
proof (induction cs arbitrary: parts)
  case Nil
  show ?case by simp
next
  case (Cons c cs)
  have "snd (g c h) = h" by (rule Cons.prems)
  then show ?case
    using Cons.IH [OF Cons.prems] by (simp add: case_prod_beta split: sum.splits)
qed

lemma render_heap: "snd (render n self indent h) = h"
proof (induction n arbitrary: self h)
  case 0
  show ?case by simp
next
  case (Suc n)
  have s: "snd (Section_render_loop (\<lambda>c h'. render n c indent h') cs res h) = h" for cs res
    by (rule Section_render_loop_heap) (rule Suc.IH)
  have t: "snd (Note_render_loop (\<lambda>c h'. render n c indent h') cs res h) = h" for cs res
    by (rule Note_render_loop_heap) (rule Suc.IH)
  show ?case
  proof (cases "deref h self")
    case None
    then show ?thesis by simp
  next
    case (Some ob)
    then show ?thesis
      using s t by (cases ob) (simp_all add: Let_def case_prod_beta split: sum.splits)
  qed
qed

lemma get_text_content_heap: "snd (get_text_content n self h) = h"
proof (induction n arbitrary: self h)
  case 0
  show ?case by simp
next
  case (Suc n)
  have s: "snd (get_text_content_loop (\<lambda>c h'. get_text_content n c h') cs parts h) = h"
    for cs parts
    by (rule get_text_content_loop_heap) (rule Suc.IH)
  show ?case
  proof (cases "deref h self")
    case None
    then show ?thesis by simp
  next
    case (Some ob)
    then show ?thesis
      using s by (cases ob) (simp_all add: Let_def case_prod_beta split: sum.splits)
  qed
qed

text \<open>
  C9. \<^verbatim>\<open>render\<close> and \<^verbatim>\<open>get_text_content\<close> return the store they were given, whatever
  the node, the depth and the outcome, so no field of any node changes; and a second
  call, made on the store the first call left, returns the same result as the first.
\<close>

theorem render_pure:
  "snd (render n self indent h) = h \<and>
   render n self indent (snd (render n self indent h)) = render n self indent h \<and>
   snd (get_text_content n self h) = h \<and>
   get_text_content n self (snd (get_text_content n self h)) = get_text_content n self h"
  by (simp add: render_heap get_text_content_heap)

section \<open>Leaves\<close>

text \<open>
  C4. A Subheading constructed with any integer level stores \<open>clamp level 2 6\<close>: construction
  always succeeds (the constructor has no error result), and \<^verbatim>\<open>render\<close> then emits the
  indentation, exactly that many \<^verbatim>\<open>#\<close> characters, a space, the text and a newline.
\<close>

theorem subheading_level_clamped:
  "(case Subheading_init text level h of (a, h') \<Rightarrow>
      deref h' a = Some (Subheading text (clamp level 2 6)) \<and>
      render (Suc n) a indent h'
        = (Inr (str_mul ''  '' indent @ replicate (nat (clamp level 2 6)) CHR ''#''
                  @ '' '' @ text @ [NL]), h'))"
  by (simp add: Subheading_init_def alloc_def deref_def Subheading_render_def str_mul_def
      clamp_def max_def min_def)

theorem subheading_level_clamped_witness:
  "deref [Subheading ''Deep'' 6] 0 = Some (Subheading ''Deep'' 6) \<and>
   Subheading_init ''Deep'' 10 [] = (0, [Subheading ''Deep'' 6]) \<and>
   render 1 0 0 [Subheading ''Deep'' 6] = (Inr (''###### Deep'' @ [NL]), [Subheading ''Deep'' 6]) \<and>
   Subheading_init ''Low'' (- 3) [] = (0, [Subheading ''Low'' 2]) \<and>
   render 1 0 1 [Subheading ''Low'' 2] = (Inr (''  ## Low'' @ [NL]), [Subheading ''Low'' 2])"
  using subheading_level_clamped [of "''Deep''" 10 0 0 "[]"]
    subheading_level_clamped [of "''Low''" "- 3" 0 1 "[]"]
  by (simp add: Subheading_init_def alloc_def deref_def clamp_def str_mul_def eval_nat_numeral
      del: render.simps)

text \<open>
  C5. For each of the five leaves, \<^verbatim>\<open>get_text_content\<close> on the freshly constructed object
  returns exactly the content string given to the constructor (the text of a Heading or
  Subheading, the content of a Text or Diagram, the code of a CodeBlock), with nothing
  added.
\<close>

theorem leaf_text_content:
  "(case Heading_init text h of (a, h') \<Rightarrow> get_text_content (Suc n) a h' = (Inr text, h')) \<and>
   (case Subheading_init text level h of (a, h') \<Rightarrow>
      get_text_content (Suc n) a h' = (Inr text, h')) \<and>
   (case Text_init content h of (a, h') \<Rightarrow> get_text_content (Suc n) a h' = (Inr content, h')) \<and>
   (case CodeBlock_init code language h of (a, h') \<Rightarrow>
      get_text_content (Suc n) a h' = (Inr code, h')) \<and>
   (case Diagram_init content diagram_type h of (a, h') \<Rightarrow>
      get_text_content (Suc n) a h' = (Inr content, h'))"
  by (simp add: Heading_init_def Subheading_init_def Text_init_def CodeBlock_init_def
      Diagram_init_def alloc_def deref_def)

section \<open>Sections\<close>

text \<open>
  C7. A Section with the empty title and no children renders to the empty string, at
  every depth and with any positive call budget.
\<close>

theorem empty_section_renders_empty:
  "deref h self = Some (Section [] []) \<Longrightarrow> render (Suc n) self indent h = (Inr [], h)"
  by simp

theorem empty_section_renders_empty_witness:
  "deref (snd (Section_init [] [])) (fst (Section_init [] [])) = Some (Section [] []) \<and>
   render 1 (fst (Section_init [] [])) 3 (snd (Section_init [] []))
     = (Inr [], snd (Section_init [] []))"
  using empty_section_renders_empty [where h = "snd (Section_init [] [])"
      and self = "fst (Section_init [] [])" and n = 0 and indent = 3]
  by (simp add: Section_init_def alloc_def deref_def)

text \<open>
  The loops over the children, when every child renders: the results are appended to the
  list in the order of the children.
\<close>

lemma Section_render_loop_all:
  "list_all2 (\<lambda>c s. r c h = (Inr s, h)) cs rs
     \<Longrightarrow> Section_render_loop r cs res h = (Inr (res @ rs), h)"
  by (induction cs rs arbitrary: res rule: list_all2_induct) simp_all

lemma Note_render_loop_all:
  "list_all2 (\<lambda>c s. r c h = (Inr s, h)) cs rs
     \<Longrightarrow> Note_render_loop r cs res h = (Inr (res @ concat (map (\<lambda>s. [s, [NL]]) rs)), h)"
  by (induction cs rs arbitrary: res rule: list_all2_induct) simp_all

lemma Note_metadata_loop_map:
  "Note_metadata_loop items res = res @ map (\<lambda>(k, v). k @ '': '' @ v @ [NL]) items"
  by (induction items res rule: Note_metadata_loop.induct) simp_all

lemma render_children:
  "list_all2 (\<lambda>c s. fst (render n c indent h) = Inr s) cs rs
     \<Longrightarrow> list_all2 (\<lambda>c s. render n c indent h = (Inr s, h)) cs rs"
  by (erule list_all2_mono) (metis prod.collapse render_heap)

text \<open>
  \<^verbatim>\<open>add\<close> puts the new child last, so the order of the list is the order of insertion.
\<close>

lemma Section_add_appends:
  "deref h self = Some (Section title components)
     \<Longrightarrow> Section_add self component h
           = (Inr self, h[self := Section title (components @ [component])])"
  by (simp add: Section_add_def)

text \<open>
  C6. When every child of a Section renders (with the call budget left for them), the
  Section renders to its title line \<^verbatim>\<open>## title\<close>, present only for a non-empty title,
  followed by the renderings of the children at the same depth, in the order of the
  list, concatenated with nothing between them.
\<close>

theorem section_render_children_same_depth:
  assumes "deref h self = Some (Section title components)"
    and "list_all2 (\<lambda>c s. fst (render n c indent h) = Inr s) components rs"
  shows "render (Suc n) self indent h
           = (Inr ((if title \<noteq> [] then str_mul ''  '' indent @ ''## '' @ title @ [NL] else [])
                    @ concat rs), h)"
  using assms(1) Section_render_loop_all [where r = "\<lambda>c h'. render n c indent h'" and h = h,
      OF render_children [OF assms(2)]]
  by simp

theorem section_render_children_same_depth_witness:
  "deref [Section ''S'' [1, 2], Text ''a'', Text ''b''] 0 = Some (Section ''S'' [1, 2]) \<and>
   list_all2 (\<lambda>c s. fst (render 1 c 1 [Section ''S'' [1, 2], Text ''a'', Text ''b'']) = Inr s)
     [1, 2] [''  a'' @ [NL], ''  b'' @ [NL]] \<and>
   render 2 0 1 [Section ''S'' [1, 2], Text ''a'', Text ''b'']
     = (Inr (''  ## S'' @ [NL] @ ''  a'' @ [NL] @ ''  b'' @ [NL]),
        [Section ''S'' [1, 2], Text ''a'', Text ''b''])"
  using section_render_children_same_depth [where h = "[Section ''S'' [1, 2], Text ''a'', Text ''b'']"
      and self = 0 and title = "''S''" and components = "[1, 2]" and n = 1 and indent = 1
      and rs = "[''  a'' @ [NL], ''  b'' @ [NL]]"]
  by (simp add: deref_def Text_render_def str_mul_def NL_def eval_nat_numeral)

section \<open>Documents\<close>

lemma update_new_key: "key \<notin> fst ` set al \<Longrightarrow> AList.update key v al = al @ [(key, v)]"
  by (induction al) auto

lemma update_existing_key:
  "key \<notin> fst ` set xs \<Longrightarrow> AList.update key v (xs @ (key, old) # ys) = xs @ (key, v) # ys"
  by (induction xs) auto

lemma Note_render_general:
  assumes "deref h self = Some (Note title components metadata)"
    and "list_all2 (\<lambda>c s. fst (render n c indent h) = Inr s) components rs"
  shows "render (Suc n) self indent h
           = (Inr (''# '' @ title @ [NL, NL]
               @ (if metadata \<noteq> []
                  then ''---'' @ [NL] @ concat (map (\<lambda>(k, v). k @ '': '' @ v @ [NL]) metadata)
                         @ ''---'' @ [NL, NL]
                  else [])
               @ concat (map (\<lambda>s. s @ [NL]) rs)), h)"
proof -
  have c: "concat (concat (map (\<lambda>s. [s, [NL]]) rs)) = concat (map (\<lambda>s. s @ [NL]) rs)"
    by (induction rs) simp_all
  show ?thesis
    using assms(1) c Note_render_loop_all [where r = "\<lambda>c h'. render n c indent h'" and h = h,
        OF render_children [OF assms(2)]]
    by (simp add: Note_metadata_loop_map)
qed

text \<open>
  C8. \<^verbatim>\<open>set_metadata\<close> on a Note appends a new key at the end of the metadata and
  overwrites the value of an existing key where it stands; \<^verbatim>\<open>render\<close> emits one
  \<^verbatim>\<open>key: value\<close> line per entry, in the order of the metadata, between the two fences.
\<close>

theorem set_metadata_ordered_upsert:
  assumes "deref h self = Some (Note title components metadata)"
  shows "(key \<notin> fst ` set metadata \<longrightarrow>
            Note_set_metadata self key val h
              = (Inr self, h[self := Note title components (metadata @ [(key, val)])])) \<and>
         (metadata = xs @ (key, old) # ys \<and> key \<notin> fst ` set xs \<longrightarrow>
            Note_set_metadata self key val h
              = (Inr self, h[self := Note title components (xs @ (key, val) # ys)])) \<and>
         (metadata \<noteq> [] \<and>
          list_all2 (\<lambda>c s. fst (render n c indent h) = Inr s) components rs \<longrightarrow>
            render (Suc n) self indent h
              = (Inr (''# '' @ title @ [NL, NL] @ ''---'' @ [NL]
                       @ concat (map (\<lambda>(k, v). k @ '': '' @ v @ [NL]) metadata)
                       @ ''---'' @ [NL, NL] @ concat (map (\<lambda>s. s @ [NL]) rs)), h))"
proof (intro conjI impI)
  assume "key \<notin> fst ` set metadata"
  then show "Note_set_metadata self key val h
      = (Inr self, h[self := Note title components (metadata @ [(key, val)])])"
    using assms by (simp add: Note_set_metadata_def update_new_key)
next
  assume "metadata = xs @ (key, old) # ys \<and> key \<notin> fst ` set xs"
  then show "Note_set_metadata self key val h
      = (Inr self, h[self := Note title components (xs @ (key, val) # ys)])"
    using assms by (simp add: Note_set_metadata_def update_existing_key)
next
  assume a: "metadata \<noteq> [] \<and>
    list_all2 (\<lambda>c s. fst (render n c indent h) = Inr s) components rs"
  then have "list_all2 (\<lambda>c s. fst (render n c indent h) = Inr s) components rs" ..
  from Note_render_general [OF assms this] a
  show "render (Suc n) self indent h
      = (Inr (''# '' @ title @ [NL, NL] @ ''---'' @ [NL]
               @ concat (map (\<lambda>(k, v). k @ '': '' @ v @ [NL]) metadata)
               @ ''---'' @ [NL, NL] @ concat (map (\<lambda>s. s @ [NL]) rs)), h)"
    by simp
qed

theorem set_metadata_ordered_upsert_witness:
  "deref [Note ''T'' [] [(''a'', ''1''), (''b'', ''2'')]] 0
     = Some (Note ''T'' [] [(''a'', ''1''), (''b'', ''2'')]) \<and>
   ''c'' \<notin> fst ` set [(''a'', ''1''), (''b'', ''2'')] \<and>
   Note_set_metadata 0 ''c'' ''3'' [Note ''T'' [] [(''a'', ''1''), (''b'', ''2'')]]
     = (Inr 0, [Note ''T'' [] [(''a'', ''1''), (''b'', ''2''), (''c'', ''3'')]]) \<and>
   ''a'' \<notin> fst ` set ([] :: (string \<times> string) list) \<and>
   Note_set_metadata 0 ''a'' ''9'' [Note ''T'' [] [(''a'', ''1''), (''b'', ''2'')]]
     = (Inr 0, [Note ''T'' [] [(''a'', ''9''), (''b'', ''2'')]]) \<and>
   render (Suc 0) 0 0 [Note ''T'' [] [(''a'', ''1''), (''b'', ''2'')]]
     = (Inr (''# T'' @ [NL, NL] @ ''---'' @ [NL] @ ''a: 1'' @ [NL] @ ''b: 2'' @ [NL]
              @ ''---'' @ [NL, NL]),
        [Note ''T'' [] [(''a'', ''1''), (''b'', ''2'')]])"
  using set_metadata_ordered_upsert [where h = "[Note ''T'' [] [(''a'', ''1''), (''b'', ''2'')]]"
      and self = 0 and title = "''T''" and components = "[]"
      and metadata = "[(''a'', ''1''), (''b'', ''2'')]" and key = "''c''" and val = "''3''"
      and xs = "[]" and old = "''1''" and ys = "[]" and n = 0 and indent = 0 and rs = "[]"]
    set_metadata_ordered_upsert [where h = "[Note ''T'' [] [(''a'', ''1''), (''b'', ''2'')]]"
      and self = 0 and title = "''T''" and components = "[]"
      and metadata = "[(''a'', ''1''), (''b'', ''2'')]" and key = "''a''" and val = "''9''"
      and xs = "[]" and old = "''1''" and ys = "[(''b'', ''2'')]" and n = 0 and indent = 0
      and rs = "[]"]
  by (simp add: deref_def del: render.simps)

text \<open>
  C1. In any store, the Note constructed with title \<^verbatim>\<open>T\<close>, given the metadata entry
  \<^verbatim>\<open>k: v\<close> and the single child \<^verbatim>\<open>Text("hi")\<close>, renders at depth 0 to the title line and a
  blank line, the metadata between two \<^verbatim>\<open>---\<close> lines and a blank line, then the child's
  rendering and one more newline. Both mutators return the Note itself. The call
  budget \<open>2\<close> covers the Note and its child.
\<close>

theorem document_scenario:
  "(case Note_init ''T'' h0 of (note, h1) \<Rightarrow>
    case Note_set_metadata note ''k'' ''v'' h1 of (r1, h2) \<Rightarrow>
    case Text_init ''hi'' h2 of (child, h3) \<Rightarrow>
    case Note_add note child h3 of (r2, h4) \<Rightarrow>
      r1 = Inr note \<and> r2 = Inr note \<and>
      render (Suc (Suc n)) note 0 h4
        = (Inr (''# T'' @ [NL, NL] @ ''---'' @ [NL] @ ''k: v'' @ [NL] @ ''---'' @ [NL, NL]
                 @ ''hi'' @ [NL, NL]), h4))"
  by (simp add: Note_init_def Note_set_metadata_def Text_init_def Note_add_def alloc_def
      deref_def nth_append Text_render_def str_mul_def)

theorem document_scenario_witness:
  "render 2 0 0 [Note ''T'' [1] [(''k'', ''v'')], Text ''hi'']
     = (Inr (''# T'' @ [NL, NL] @ ''---'' @ [NL] @ ''k: v'' @ [NL] @ ''---'' @ [NL, NL]
              @ ''hi'' @ [NL, NL]),
        [Note ''T'' [1] [(''k'', ''v'')], Text ''hi''])"
  using document_scenario [where ?h0.0 = "[]" and n = 0]
  by (simp add: Note_init_def Note_set_metadata_def Text_init_def Note_add_def alloc_def
      deref_def eval_nat_numeral del: render.simps)

section \<open>Indentation\<close>

lemma str_split_not_Nil: "str_split sep s \<noteq> []"
  by (induction s) (simp_all add: Let_def)

lemma str_split_pieces: "p \<in> set (str_split sep s) \<Longrightarrow> sep \<notin> set p"
proof (induction s arbitrary: p)
  case Nil
  then show ?case by simp
next
  case (Cons c s)
  show ?case
  proof (cases "c = sep")
    case True
    with Cons show ?thesis by auto
  next
    case False
    have ne: "str_split sep s \<noteq> []" by (rule str_split_not_Nil)
    from Cons.prems False
    have "p = c # hd (str_split sep s) \<or> p \<in> set (tl (str_split sep s))"
      by (simp add: Let_def)
    then show ?thesis
    proof
      assume "p = c # hd (str_split sep s)"
      with False Cons.IH [of "hd (str_split sep s)"] ne show ?thesis by simp
    next
      assume "p \<in> set (tl (str_split sep s))"
      then have "p \<in> set (str_split sep s)" by (rule list.set_sel(2) [OF ne])
      then show ?thesis by (rule Cons.IH)
    qed
  qed
qed

lemma str_split_no_sep: "sep \<notin> set s \<Longrightarrow> str_split sep s = [s]"
  by (induction s) (auto simp: Let_def)

lemma str_split_append:
  "sep \<notin> set x \<Longrightarrow> str_split sep (x @ sep # y) = x # str_split sep y"
  by (induction x) (auto simp: Let_def)

lemma str_split_join:
  "ls \<noteq> [] \<Longrightarrow> \<forall>l \<in> set ls. sep \<notin> set l \<Longrightarrow> str_split sep (str_join [sep] ls) = ls"
proof (induction "[sep]" ls rule: str_join.induct)
  case 1
  then show ?case by simp
next
  case (2 x)
  then show ?case by (simp add: str_split_no_sep)
next
  case (3 x y ys)
  then show ?case by (simp add: str_split_append)
qed

lemma str_split_snoc_sep: "str_split sep (s @ [sep]) = str_split sep s @ [[]]"
proof (induction s)
  case Nil
  show ?case by simp
next
  case (Cons c s)
  have ne: "str_split sep s \<noteq> []" by (rule str_split_not_Nil)
  show ?case
  proof (cases "c = sep")
    case True
    with Cons show ?thesis by simp
  next
    case False
    with Cons ne show ?thesis by (cases "str_split sep s") (simp_all add: Let_def)
  qed
qed

lemma str_split_glue:
  "str_split sep (a @ sep # b) = str_split sep a @ str_split sep b"
proof (induction a)
  case Nil
  show ?case by simp
next
  case (Cons c a)
  have ne: "str_split sep a \<noteq> []" by (rule str_split_not_Nil)
  show ?case
  proof (cases "c = sep")
    case True
    with Cons show ?thesis by simp
  next
    case False
    with Cons ne show ?thesis by (cases "str_split sep a") (simp_all add: Let_def)
  qed
qed

lemma str_lines_Nil: "str_lines [] = []"
  by (simp add: str_lines_def)

lemma str_lines_join:
  "ls \<noteq> [] \<Longrightarrow> \<forall>l \<in> set ls. NL \<notin> set l \<Longrightarrow> str_lines (str_join [NL] ls @ [NL]) = ls"
  by (simp add: str_lines_def str_split_snoc_sep str_split_join)

lemma str_lines_append:
  assumes "a = [] \<or> last a = NL"
  shows "str_lines (a @ b) = str_lines a @ str_lines b"
proof (cases "a = []")
  case True
  then show ?thesis by (simp add: str_lines_Nil)
next
  case False
  with assms obtain a' where a: "a = a' @ [NL]"
    by (metis append_butlast_last_id)
  have ne: "str_split NL b \<noteq> []" by (rule str_split_not_Nil)
  have "str_lines a = str_split NL a'"
    by (simp add: a str_lines_def str_split_snoc_sep)
  moreover have "str_lines (a @ b) = str_split NL a' @ str_lines b"
    using ne by (simp add: a str_lines_def str_split_glue butlast_append Let_def)
  ultimately show ?thesis by simp
qed

lemma terminated_append: "terminated a \<Longrightarrow> terminated b \<Longrightarrow> terminated (a @ b)"
  by (cases "b = []") (auto simp: terminated_def)

lemma terminated_concat: "\<forall>r \<in> set rs. terminated r \<Longrightarrow> terminated (concat rs)"
  by (induction rs) (simp_all add: terminated_append, simp add: terminated_def)

lemma str_lines_concat:
  "\<forall>r \<in> set rs. terminated r \<Longrightarrow> str_lines (concat rs) = concat (map str_lines rs)"
  by (induction rs) (simp_all add: str_lines_Nil str_lines_append terminated_def)

lemma str_mul_spaces: "str_mul ''  '' d = replicate (2 * nat d) CHR '' ''"
proof -
  have "concat (replicate k ''  '') = replicate (2 * k) CHR '' ''" for k
    by (induction k) simp_all
  then show ?thesis by (simp add: str_mul_def)
qed

lemma str_mul_hashes: "str_mul ''#'' d = replicate (nat d) CHR ''#''"
proof -
  have "concat (replicate k ''#'') = replicate k CHR ''#''" for k
    by (induction k) simp_all
  then show ?thesis by (simp add: str_mul_def)
qed


lemma str_lines_single: "NL \<notin> set l \<Longrightarrow> str_lines (l @ [NL]) = [l]"
  using str_lines_join [of "[l]"] by simp

lemma NL_not_in_spaces: "NL \<notin> set (replicate k CHR '' '')"
  by (simp add: NL_def)

lemma NL_not_in_hashes: "NL \<notin> set (replicate k CHR ''#'')"
  by (simp add: NL_def)

lemma NL_not_in_markers:
  "NL \<notin> set ''# ''" "NL \<notin> set ''## ''" "NL \<notin> set '' ''" "NL \<notin> set ''```''"
  "NL \<notin> set ''[Diagram: ''" "NL \<notin> set '']''" "NL \<notin> set ''[End Diagram]''"
  by (simp_all add: NL_def)

lemma Heading_render_lines:
  assumes "NL \<notin> set text"
  shows "str_lines (Heading_render text d) = [replicate (2 * nat d) CHR '' '' @ ''# '' @ text]"
proof -
  have r: "Heading_render text d = (replicate (2 * nat d) CHR '' '' @ ''# '' @ text) @ [NL]"
    by (simp add: Heading_render_def str_mul_spaces)
  have "NL \<notin> set (replicate (2 * nat d) CHR '' '' @ ''# '' @ text)"
    using assms NL_not_in_spaces [of "2 * nat d"] NL_not_in_markers(1) by auto
  then show ?thesis unfolding r by (rule str_lines_single)
qed

lemma Subheading_render_lines:
  assumes "NL \<notin> set text"
  shows "str_lines (Subheading_render text level d)
           = [replicate (2 * nat d) CHR '' '' @ replicate (nat level) CHR ''#'' @ '' '' @ text]"
proof -
  have r: "Subheading_render text level d
          = (replicate (2 * nat d) CHR '' '' @ replicate (nat level) CHR ''#'' @ '' '' @ text)
              @ [NL]"
    by (simp add: Subheading_render_def str_mul_spaces str_mul_hashes)
  have "NL \<notin> set (replicate (2 * nat d) CHR '' '' @ replicate (nat level) CHR ''#'' @ '' '' @ text)"
    using assms NL_not_in_spaces [of "2 * nat d"] NL_not_in_hashes [of "nat level"]
      NL_not_in_markers(3) by auto
  then show ?thesis unfolding r by (rule str_lines_single)
qed

lemma prefixed_pieces:
  "\<forall>l \<in> set (map (\<lambda>line. replicate k CHR '' '' @ line) (str_split NL s)). NL \<notin> set l"
  using NL_not_in_spaces by (auto dest: str_split_pieces)

lemma Text_render_lines:
  "str_lines (Text_render content d)
     = map (\<lambda>line. replicate (2 * nat d) CHR '' '' @ line) (str_split NL content)"
  unfolding Text_render_def Let_def str_mul_spaces
  by (rule str_lines_join) (simp add: str_split_not_Nil, rule prefixed_pieces)

lemma CodeBlock_render_lines:
  assumes "NL \<notin> set language"
  shows "str_lines (CodeBlock_render code language d)
     = map (\<lambda>line. replicate (2 * nat d) CHR '' '' @ line)
         ((''```'' @ language) # str_split NL code @ [''```''])"
proof -
  let ?p = "replicate (2 * nat d) CHR '' ''"
  let ?ls = "[?p @ ''```'' @ language] @ map (\<lambda>line. ?p @ line) (str_split NL code)
               @ [?p @ ''```'']"
  have r: "CodeBlock_render code language d = str_join [NL] ?ls @ [NL]"
    by (simp add: CodeBlock_render_def Let_def str_mul_spaces)
  have "NL \<notin> set (?p @ ''```'' @ language)" "NL \<notin> set (?p @ ''```'')"
    using assms NL_not_in_spaces [of "2 * nat d"] NL_not_in_markers(4) by auto
  then have "\<forall>l \<in> set ?ls. NL \<notin> set l"
    using prefixed_pieces [of "2 * nat d" code] by (simp only: set_append ball_Un) simp
  then have "str_lines (str_join [NL] ?ls @ [NL]) = ?ls"
    by (intro str_lines_join) simp_all
  with r show ?thesis by simp
qed

lemma Diagram_render_lines:
  assumes "NL \<notin> set diagram_type"
  shows "str_lines (Diagram_render content diagram_type d)
     = map (\<lambda>line. replicate (2 * nat d) CHR '' '' @ line)
         ((''[Diagram: '' @ diagram_type @ '']'') # str_split NL content @ [''[End Diagram]''])"
proof -
  let ?p = "replicate (2 * nat d) CHR '' ''"
  let ?ls = "[?p @ ''[Diagram: '' @ diagram_type @ '']'']
               @ map (\<lambda>line. ?p @ line) (str_split NL content) @ [?p @ ''[End Diagram]'']"
  have r: "Diagram_render content diagram_type d = str_join [NL] ?ls @ [NL]"
    by (simp add: Diagram_render_def Let_def str_mul_spaces)
  have "NL \<notin> set (?p @ ''[Diagram: '' @ diagram_type @ '']'')"
    "NL \<notin> set (?p @ ''[End Diagram]'')"
    using assms NL_not_in_spaces [of "2 * nat d"] NL_not_in_markers(5,6,7) by auto
  then have "\<forall>l \<in> set ?ls. NL \<notin> set l"
    using prefixed_pieces [of "2 * nat d" content] by (simp only: set_append ball_Un) simp
  then have "str_lines (str_join [NL] ?ls @ [NL]) = ?ls"
    by (intro str_lines_join) simp_all
  with r show ?thesis by simp
qed

lemma leaf_render_terminated:
  "terminated (Heading_render text d)" "terminated (Subheading_render text level d)"
  "terminated (Text_render content d)" "terminated (CodeBlock_render code language d)"
  "terminated (Diagram_render content diagram_type d)"
  by (simp_all add: Heading_render_def Subheading_render_def Text_render_def
      CodeBlock_render_def Diagram_render_def Let_def terminated_def)


lemma children_lines:
  assumes "\<forall>c \<in> set cs. terminated (f0 c) \<and> terminated (fd c) \<and>
             str_lines (fd c) = map ((@) p) (str_lines (f0 c))"
  shows "str_lines (concat (map fd cs)) = map ((@) p) (str_lines (concat (map f0 cs)))"
proof -
  have "str_lines (concat (map fd cs)) = concat (map (\<lambda>c. str_lines (fd c)) cs)"
    using assms by (simp add: str_lines_concat comp_def)
  also have "\<dots> = concat (map (\<lambda>c. map ((@) p) (str_lines (f0 c))) cs)"
    using assms by (simp cong: map_cong)
  also have "\<dots> = map ((@) p) (concat (map (\<lambda>c. str_lines (f0 c)) cs))"
    by (simp add: map_concat comp_def)
  also have "concat (map (\<lambda>c. str_lines (f0 c)) cs) = str_lines (concat (map f0 cs))"
    using assms by (simp add: str_lines_concat comp_def)
  finally show ?thesis .
qed

lemma title_lines:
  assumes "NL \<notin> set title"
  shows "str_lines (replicate k CHR '' '' @ ''## '' @ title @ [NL])
           = [replicate k CHR '' '' @ ''## '' @ title]"
proof -
  have "NL \<notin> set (replicate k CHR '' '' @ ''## '' @ title)"
    using assms NL_not_in_spaces [of k] NL_not_in_markers(2) by auto
  then have "str_lines ((replicate k CHR '' '' @ ''## '' @ title) @ [NL])
      = [replicate k CHR '' '' @ ''## '' @ title]"
    by (rule str_lines_single)
  then show ?thesis by simp
qed

lemma plain_tree_render:
  "plain_tree n a h \<Longrightarrow>
     \<exists>s0 s. render n a 0 h = (Inr s0, h) \<and> render n a d h = (Inr s, h) \<and>
       terminated s0 \<and> terminated s \<and>
       str_lines s = map ((@) (replicate (2 * nat d) CHR '' '')) (str_lines s0)"
proof (induction n arbitrary: a)
  case 0
  then show ?case by simp
next
  case (Suc n)
  let ?p = "replicate (2 * nat d) CHR '' ''"
  from Suc.prems obtain ob where ob: "deref h a = Some ob"
    by (cases "deref h a") simp_all
  show ?case
  proof (cases ob)
    case (Heading tx)
    with ob Suc.prems have "NL \<notin> set tx" by simp
    then show ?thesis
      using ob Heading by (simp add: Heading_render_lines leaf_render_terminated)
  next
    case (Subheading tx level)
    with ob Suc.prems have "NL \<notin> set tx" by simp
    then show ?thesis
      using ob Subheading by (simp add: Subheading_render_lines leaf_render_terminated)
  next
    case (Text content)
    then show ?thesis
      using ob by (simp add: Text_render_lines leaf_render_terminated)
  next
    case (CodeBlock code language)
    with ob Suc.prems have "NL \<notin> set language" by simp
    then show ?thesis
      using ob CodeBlock by (simp add: CodeBlock_render_lines leaf_render_terminated)
  next
    case (Diagram content diagram_type)
    with ob Suc.prems have "NL \<notin> set diagram_type" by simp
    then show ?thesis
      using ob Diagram by (simp add: Diagram_render_lines leaf_render_terminated)
  next
    case (Note title cs metadata)
    with ob Suc.prems show ?thesis by simp
  next
    case (Section title cs)
    with ob Suc.prems have t: "NL \<notin> set title" and cs: "\<forall>c \<in> set cs. plain_tree n c h"
      by (simp_all add: list_all_iff)
    define f0 where "f0 c = projr (fst (render n c 0 h))" for c
    define fd where "fd c = projr (fst (render n c d h))" for c
    have ch: "render n c 0 h = (Inr (f0 c), h) \<and> render n c d h = (Inr (fd c), h) \<and>
        terminated (f0 c) \<and> terminated (fd c) \<and>
        str_lines (fd c) = map ((@) ?p) (str_lines (f0 c))" if "c \<in> set cs" for c
      using Suc.IH [of c] cs that by (auto simp: f0_def fd_def)
    have l0: "list_all2 (\<lambda>c s. render n c 0 h = (Inr s, h)) cs (map f0 cs)"
      using ch by (simp add: list_all2_map2 list_all2_same)
    have ld: "list_all2 (\<lambda>c s. render n c d h = (Inr s, h)) cs (map fd cs)"
      using ch by (simp add: list_all2_map2 list_all2_same)
    define t0 where "t0 = (if title \<noteq> [] then ''## '' @ title @ [NL] else [])"
    define td where "td = (if title \<noteq> [] then ?p @ ''## '' @ title @ [NL] else [])"
    have r0: "render (Suc n) a 0 h = (Inr (t0 @ concat (map f0 cs)), h)"
      using ob Section
        Section_render_loop_all [where r = "\<lambda>c h'. render n c 0 h'" and h = h, OF l0]
      by (simp add: t0_def str_mul_def)
    have rd: "render (Suc n) a d h = (Inr (td @ concat (map fd cs)), h)"
      using ob Section
        Section_render_loop_all [where r = "\<lambda>c h'. render n c d h'" and h = h, OF ld]
      by (simp add: td_def str_mul_spaces)
    have tt: "terminated t0" "terminated td"
      by (simp_all add: t0_def td_def terminated_def)
    have tc: "terminated (concat (map f0 cs))" "terminated (concat (map fd cs))"
      using ch by (simp_all add: terminated_concat)
    have tl: "str_lines td = map ((@) ?p) (str_lines t0)"
      using title_lines [OF t, of "2 * nat d"] title_lines [OF t, of 0]
      by (simp add: t0_def td_def str_lines_Nil)
    have cl: "str_lines (concat (map fd cs)) = map ((@) ?p) (str_lines (concat (map f0 cs)))"
      using ch by (intro children_lines) simp
    have "str_lines (td @ concat (map fd cs))
        = map ((@) ?p) (str_lines (t0 @ concat (map f0 cs)))"
      using tt tl cl by (simp add: str_lines_append terminated_def)
    with r0 rd tt tc show ?thesis
      by (simp add: terminated_append)
  qed
qed

text \<open>
  C3, as stated, fails for a Note: its title line, its metadata block and the blank lines
  after its children are emitted without the indentation, whatever the depth.
\<close>

theorem note_lines_not_indented:
  "render 1 0 1 [Note ''T'' [] []] = (Inr (''# T'' @ [NL, NL]), [Note ''T'' [] []]) \<and>
   str_lines (''# T'' @ [NL, NL]) = [''# T'', []] \<and>
   \<not> indented 1 (''# T'' @ [NL, NL])"
  by (simp add: deref_def str_lines_def indented_def NL_def)

text \<open>
  A heading text that holds a newline continues on a line of its own, which the
  indentation does not reach: the restriction to single-line fields is needed.
\<close>

lemma heading_second_line_bare:
  "render 1 0 1 [Heading (''a'' @ [NL] @ ''b'')] = (Inr (''  # a'' @ [NL] @ ''b'' @ [NL]),
     [Heading (''a'' @ [NL] @ ''b'')]) \<and>
   \<not> indented 1 (''  # a'' @ [NL] @ ''b'' @ [NL])"
  by (simp add: deref_def Heading_render_def str_mul_def str_lines_def indented_def NL_def
      eval_nat_numeral)

text \<open>
  C3, amended. For a tree of leaves and Sections with single-line fields, \<^verbatim>\<open>render\<close>
  returns at every depth, and the lines of the output at a depth are the lines of the
  output at depth 0, each behind exactly two spaces per level of depth.
\<close>

theorem render_indentation:
  assumes "plain_tree n self h"
  shows "\<exists>s0 s. render n self 0 h = (Inr s0, h) \<and> render n self indent h = (Inr s, h) \<and>
           str_lines s = map (\<lambda>line. replicate (2 * nat indent) CHR '' '' @ line) (str_lines s0) \<and>
           indented indent s"
proof -
  from plain_tree_render [OF assms, of indent] obtain s0 s where
    r: "render n self 0 h = (Inr s0, h)" "render n self indent h = (Inr s, h)" and
    l: "str_lines s = map ((@) (replicate (2 * nat indent) CHR '' '')) (str_lines s0)"
    by blast
  from l have "indented indent s"
    by (simp add: indented_def list_all_iff)
  with r l show ?thesis by auto
qed

theorem render_indentation_witness:
  "plain_tree 2 0 [Section ''S'' [1, 2], Text (''a'' @ [NL] @ ''b''), Heading ''H''] \<and>
   fst (render 2 0 1 [Section ''S'' [1, 2], Text (''a'' @ [NL] @ ''b''), Heading ''H''])
     = Inr (''  ## S'' @ [NL] @ ''  a'' @ [NL] @ ''  b'' @ [NL] @ ''  # H'' @ [NL]) \<and>
   indented 1 (''  ## S'' @ [NL] @ ''  a'' @ [NL] @ ''  b'' @ [NL] @ ''  # H'' @ [NL])"
proof -
  let ?h = "[Section ''S'' [1, 2], Text (''a'' @ [NL] @ ''b''), Heading ''H'']"
  have p: "plain_tree 2 0 ?h"
    by (simp add: eval_nat_numeral deref_def NL_def)
  have e: "fst (render 2 0 1 ?h)
      = Inr (''  ## S'' @ [NL] @ ''  a'' @ [NL] @ ''  b'' @ [NL] @ ''  # H'' @ [NL])"
    by (simp add: eval_nat_numeral deref_def Text_render_def Heading_render_def str_mul_def
        NL_def)
  from render_indentation [OF p, of 1] e p show ?thesis by auto
qed

end
